theory Spec2Isabelle
  imports Main "HOL-Library.AList" "HOL-Library.Sublist"
begin

section \<open>JavaScript values\<close>

text \<open>
  The request body is what \<^verbatim>\<open>express.json()\<close> or \<^verbatim>\<open>express.urlencoded()\<close> parsed, and a
  stored event is \<^verbatim>\<open>JSON.parse\<close> of \<^verbatim>\<open>JSON.stringify(req.body)\<close>. Values are modelled as
  JSON trees plus \<^verbatim>\<open>undefined\<close> (the result of reading an absent property). The program
  only tests numbers for truthiness, so a number is an \<open>int\<close> (zero or not). An object is
  an association list read with \<open>map_of\<close>.
\<close>

datatype jsval =
    JUndefined
  | JNull
  | JBool bool
  | JNum int
  | JStr string
  | JArr "jsval list"
  | JObj "(string \<times> jsval) list"

datatype js_error =
    TypeError         \<comment> \<open>reading a property of \<^verbatim>\<open>null\<close> or \<^verbatim>\<open>undefined\<close>\<close>
  | Error string      \<comment> \<open>\<^verbatim>\<open>new Error(message)\<close>\<close>

text \<open>\<^verbatim>\<open>!v\<close> is \<open>\<not> truthy v\<close>.\<close>

fun truthy :: "jsval \<Rightarrow> bool" where
  "truthy JUndefined = False"
| "truthy JNull = False"
| "truthy (JBool b) = b"
| "truthy (JNum n) = (n \<noteq> 0)"
| "truthy (JStr s) = (s \<noteq> [])"
| "truthy (JArr xs) = True"
| "truthy (JObj kvs) = True"

fun nullish :: "jsval \<Rightarrow> bool" where
  "nullish JUndefined = True"
| "nullish JNull = True"
| "nullish v = False"

text \<open>
  \<open>getp v name\<close> is \<^verbatim>\<open>v.name\<close> for a value that is not \<^verbatim>\<open>null\<close> or \<^verbatim>\<open>undefined\<close>: the
  property of an object, \<^verbatim>\<open>undefined\<close> for an absent property and for the primitives and
  arrays (none of the names the program reads, \<^verbatim>\<open>action membership user role login id\<close>,
  is a built-in property). \<open>read_prop\<close> is the access in full: a TypeError on \<^verbatim>\<open>null\<close> and
  \<^verbatim>\<open>undefined\<close>.
\<close>

fun getp :: "jsval \<Rightarrow> string \<Rightarrow> jsval" where
  "getp (JObj kvs) name = (case map_of kvs name of None \<Rightarrow> JUndefined | Some v \<Rightarrow> v)"
| "getp v name = JUndefined"

definition read_prop :: "jsval \<Rightarrow> string \<Rightarrow> js_error + jsval" where
  "read_prop v name = (if nullish v then Inl TypeError else Inr (getp v name))"

text \<open>
  A template literal \<^verbatim>\<open>`... ${v} ...`\<close> converts \<open>v\<close> to a string. For an object the
  conversion calls its \<^verbatim>\<open>toString\<close>; a parsed JSON object that has a key \<^verbatim>\<open>toString\<close> of
  its own hides the inherited method behind a value that cannot be called, and the
  conversion throws a TypeError. An array converts its elements (other than \<^verbatim>\<open>null\<close> and
  \<^verbatim>\<open>undefined\<close>) in turn. Everything else converts.
\<close>

fun to_string_throws :: "jsval \<Rightarrow> bool" where
  "to_string_throws (JObj kvs) = (map_of kvs ''toString'' \<noteq> None)"
| "to_string_throws (JArr xs) = list_ex to_string_throws xs"
| "to_string_throws v = False"

section \<open>The policy backend and the clock\<close>

text \<open>
  The three calls of the Permit SDK that the program makes, with their arguments:
  \<^verbatim>\<open>createUser({ key })\<close>, \<^verbatim>\<open>assignRole({ user, role, tenant })\<close>, \<^verbatim>\<open>deleteUser(key)\<close>.
  A call resolves with a response or rejects.
\<close>

datatype api_call =
    CreateUser jsval
  | AssignRole jsval jsval string
  | DeleteUser jsval

datatype api_outcome = Resolved jsval | Rejected

text \<open>
  Everything outside the process is a state of type \<open>'b\<close> that the program cannot see:
  \<open>api\<close> answers a backend call and moves that state (so the backend may be down now and
  up later, and time may pass during a call), \<open>clock\<close> reads the time in milliseconds
  (\<^verbatim>\<open>Date.now()\<close>, and the clock Redis expires keys by).
\<close>

record 'b environment =
  api :: "'b \<Rightarrow> api_call \<Rightarrow> api_outcome \<times> 'b"
  clock :: "'b \<Rightarrow> nat"

section \<open>Console output\<close>

datatype log_entry =
    ReceivedAction jsval                 \<comment> \<open>\<^verbatim>\<open>console.log(`Received action: ${action}`)\<close>\<close>
  | ErrorHandlingEvent js_error          \<comment> \<open>\<^verbatim>\<open>console.error("Error handling GitHub membership event:", error)\<close>\<close>
  | CreatingPermitUser jsval jsval       \<comment> \<open>\<^verbatim>\<open>console.log(`Creating Permit user: ... with role: ...`)\<close>\<close>
  | UserCreated jsval                    \<comment> \<open>\<^verbatim>\<open>console.log("User created successfully in Permit:", userResponse)\<close>\<close>
  | RoleAssigned jsval                   \<comment> \<open>\<^verbatim>\<open>console.log("Role assigned successfully in Permit:", roleResponse)\<close>\<close>
  | ErrorCreatingOrAssigning             \<comment> \<open>\<^verbatim>\<open>console.error("Error creating user or assigning role in Permit:")\<close>\<close>
  | RemovingPermitUser jsval             \<comment> \<open>\<^verbatim>\<open>console.log(`Removing Permit user: ...`)\<close>\<close>
  | UserRemovedFromPermit                \<comment> \<open>\<^verbatim>\<open>console.log("User removed successfully from Permit")\<close>\<close>
  | ErrorRemovingUser                    \<comment> \<open>\<^verbatim>\<open>console.error("Error removing user from Permit")\<close>\<close>
  | InvalidEvent string                  \<comment> \<open>\<^verbatim>\<open>console.error(`Invalid event: ${eventId}`)\<close>\<close>
  | IgnoringMemberInvited                \<comment> \<open>\<^verbatim>\<open>console.log("Ignoring member_invited event.")\<close>\<close>
  | UserAdded                            \<comment> \<open>\<^verbatim>\<open>console.log("User added to organization.")\<close>\<close>
  | UserRemoved                          \<comment> \<open>\<^verbatim>\<open>console.log("User removed from organization.")\<close>\<close>
  | UnhandledAction jsval                \<comment> \<open>\<^verbatim>\<open>console.warn("Unhandled action type:", action)\<close>\<close>
  | ErrorProcessingEvent string js_error \<comment> \<open>\<^verbatim>\<open>console.error(`Error processing event ${eventId}:`, error)\<close>\<close>
  | RetryingFailedEvents                 \<comment> \<open>\<^verbatim>\<open>console.log("Retrying failed events from Redis...")\<close>\<close>
  | ReplayingPendingEvents               \<comment> \<open>\<^verbatim>\<open>console.log("Replaying pending events from Redis after server restart...")\<close>\<close>
  | ServerRunning                        \<comment> \<open>\<^verbatim>\<open>console.log(`Server running at http://localhost:${PORT}`)\<close>\<close>

section \<open>The process state and Redis\<close>

text \<open>
  A Redis entry is the stored value with the time (milliseconds) at which it expires.
  The store is an association list: \<^verbatim>\<open>SET\<close> replaces the entry of an existing key,
  \<^verbatim>\<open>DEL\<close> removes it, and an entry whose time has come is no longer read or listed
  (Redis reclaims it). The stored value is the parsed body itself: \<^verbatim>\<open>JSON.parse\<close> undoes
  \<^verbatim>\<open>JSON.stringify\<close> on parsed JSON, and the text is never empty, so
  \<^verbatim>\<open>if (eventData)\<close> is the test that the key has a value.
  Redis is taken to be reachable: its commands do not reject.
\<close>

type_synonym redis_entry = "jsval \<times> nat"

record 'b world =
  store :: "(string \<times> redis_entry) list"
  env :: 'b
  calls :: "api_call list"
  console :: "log_entry list"

definition say :: "log_entry \<Rightarrow> 'b world \<Rightarrow> 'b world" where
  "say l w = w\<lparr>console := console w @ [l]\<rparr>"

definition call_api :: "'b environment \<Rightarrow> api_call \<Rightarrow> 'b world \<Rightarrow> api_outcome \<times> 'b world" where
  "call_api E c w =
     (case api E (env w) c of
        (r, b) \<Rightarrow> (r, w\<lparr>env := b, calls := calls w @ [c]\<rparr>))"

definition redis_set :: "'b environment \<Rightarrow> string \<Rightarrow> jsval \<Rightarrow> nat \<Rightarrow> 'b world \<Rightarrow> 'b world" where
  \<comment> \<open>\<^verbatim>\<open>redis.set(key, value, "EX", seconds)\<close>\<close>
  "redis_set E key v seconds w =
     w\<lparr>store := AList.update key (v, clock E (env w) + seconds * 1000) (store w)\<rparr>"

definition redis_get :: "'b environment \<Rightarrow> 'b world \<Rightarrow> string \<Rightarrow> jsval option" where
  "redis_get E w key =
     (case map_of (store w) key of
        None \<Rightarrow> None
      | Some (v, expires) \<Rightarrow> if clock E (env w) < expires then Some v else None)"

definition redis_del :: "string \<Rightarrow> 'b world \<Rightarrow> 'b world" where
  "redis_del key w = w\<lparr>store := AList.delete key (store w)\<rparr>"

definition redis_keys :: "'b environment \<Rightarrow> 'b world \<Rightarrow> string list" where
  \<comment> \<open>\<^verbatim>\<open>redis.keys("event:*")\<close>: each key that starts with \<^verbatim>\<open>event:\<close> and has a value, once;
      the order of the reply is the order of the list\<close>
  "redis_keys E w =
     filter (\<lambda>k. prefix ''event:'' k \<and> redis_get E w k \<noteq> None) (remdups (map fst (store w)))"

section \<open>Event identifiers\<close>

text \<open>\<^verbatim>\<open>`event:${Date.now()}`\<close>: the prefix and the time in decimal digits.\<close>

definition digit :: "nat \<Rightarrow> char" where
  "digit d = ''0123456789'' ! d"

fun string_of_nat :: "nat \<Rightarrow> string" where
  "string_of_nat n =
     (if n < 10 then [digit n] else string_of_nat (n div 10) @ [digit (n mod 10)])"

definition event_id :: "'b environment \<Rightarrow> 'b world \<Rightarrow> string" where
  "event_id E w = ''event:'' @ string_of_nat (clock E (env w))"

section \<open>Delivery\<close>

text \<open>
  \<^verbatim>\<open>createPermitUserAssignRole(body)\<close>. The guard throws before any backend call, and
  so does the template literal of the first log line when the login or the role does
  not convert to a string; both are outside the inner \<^verbatim>\<open>try\<close>. The
  backend calls sit in a \<^verbatim>\<open>try\<close> whose \<^verbatim>\<open>catch\<close> logs and does not rethrow, so a
  rejected call (and the TypeError of \<^verbatim>\<open>userResponse.id\<close> on a null response) ends the
  function normally. \<open>create_and_assign\<close> is that \<^verbatim>\<open>try\<close>/\<^verbatim>\<open>catch\<close> statement.
\<close>

definition create_and_assign :: "'b environment \<Rightarrow> jsval \<Rightarrow> jsval \<Rightarrow> 'b world \<Rightarrow> 'b world" where
  "create_and_assign E githubUsername githubUserOrgRole w =
     (case call_api E (CreateUser githubUsername) w of
        (Rejected, w1) \<Rightarrow> say ErrorCreatingOrAssigning w1
      | (Resolved userResponse, w1) \<Rightarrow>
          (let w2 = say (UserCreated userResponse) w1 in
           case read_prop userResponse ''id'' of
             Inl e \<Rightarrow> say ErrorCreatingOrAssigning w2
           | Inr uid \<Rightarrow>
               (case call_api E (AssignRole uid githubUserOrgRole ''default'') w2 of
                  (Rejected, w3) \<Rightarrow> say ErrorCreatingOrAssigning w3
                | (Resolved roleResponse, w3) \<Rightarrow> say (RoleAssigned roleResponse) w3)))"

definition createPermitUserAssignRole ::
  "'b environment \<Rightarrow> jsval \<Rightarrow> 'b world \<Rightarrow> (js_error + unit) \<times> 'b world" where
  "createPermitUserAssignRole E body w =
     (case read_prop body ''membership'' of
        Inl e \<Rightarrow> (Inl e, w)
      | Inr membership \<Rightarrow>
          if \<not> truthy membership \<or> \<not> truthy (getp membership ''user'')
             \<or> \<not> truthy (getp membership ''role'')
          then (Inl (Error ''Invalid membership data''), w)
          else
            (let githubUsername = getp (getp membership ''user'') ''login'';
                 githubUserOrgRole = getp membership ''role''
             in if to_string_throws githubUsername \<or> to_string_throws githubUserOrgRole
                then (Inl TypeError, w)
                else
                  (let w1 = say (CreatingPermitUser githubUsername githubUserOrgRole) w
                   in (Inr (), create_and_assign E githubUsername githubUserOrgRole w1))))"

text \<open>\<^verbatim>\<open>removePermitUser(body)\<close>, with the same shape.\<close>

definition removePermitUser ::
  "'b environment \<Rightarrow> jsval \<Rightarrow> 'b world \<Rightarrow> (js_error + unit) \<times> 'b world" where
  "removePermitUser E body w =
     (case read_prop body ''membership'' of
        Inl e \<Rightarrow> (Inl e, w)
      | Inr membership \<Rightarrow>
          if \<not> truthy membership \<or> \<not> truthy (getp membership ''user'')
          then (Inl (Error ''Invalid membership data''), w)
          else
            (let githubUsername = getp (getp membership ''user'') ''login''
             in if to_string_throws githubUsername
                then (Inl TypeError, w)
                else
                  (let w1 = say (RemovingPermitUser githubUsername) w
                   in case call_api E (DeleteUser githubUsername) w1 of
                        (Rejected, w2) \<Rightarrow> (Inr (), say ErrorRemovingUser w2)
                      | (Resolved response, w2) \<Rightarrow> (Inr (), say UserRemovedFromPermit w2))))"

text \<open>
  \<^verbatim>\<open>processMembershipEvent(eventId, body)\<close>. \<open>switch_action\<close> is the \<^verbatim>\<open>switch\<close> statement
  inside the \<^verbatim>\<open>try\<close>: it throws, or returns from the function (\<open>Returned\<close>, the
  \<^verbatim>\<open>member_invited\<close> case), or leaves the switch (\<open>Completed\<close>) and goes on to
  \<^verbatim>\<open>redis.del(eventId)\<close>. \<^verbatim>\<open>case\<close> labels compare with \<^verbatim>\<open>===\<close>. The read of
  \<^verbatim>\<open>body.action\<close> is outside the \<^verbatim>\<open>try\<close>, so its TypeError leaves the function.
\<close>

datatype completion = Returned | Completed

definition switch_action ::
  "'b environment \<Rightarrow> jsval \<Rightarrow> jsval \<Rightarrow> 'b world \<Rightarrow> (js_error + completion) \<times> 'b world" where
  "switch_action E action body w =
     (if action = JStr ''member_invited'' then (Inr Returned, say IgnoringMemberInvited w)
      else if action = JStr ''member_added'' then
        (case createPermitUserAssignRole E body (say UserAdded w) of
           (Inl e, w1) \<Rightarrow> (Inl e, w1)
         | (Inr u, w1) \<Rightarrow> (Inr Completed, w1))
      else if action = JStr ''member_removed'' then
        (case removePermitUser E body (say UserRemoved w) of
           (Inl e, w1) \<Rightarrow> (Inl e, w1)
         | (Inr u, w1) \<Rightarrow> (Inr Completed, w1))
      else (Inr Completed, say (UnhandledAction action) w))"

definition processMembershipEvent ::
  "'b environment \<Rightarrow> string \<Rightarrow> jsval \<Rightarrow> 'b world \<Rightarrow> (js_error + unit) \<times> 'b world" where
  "processMembershipEvent E eventId body w =
     (case read_prop body ''action'' of
        Inl e \<Rightarrow> (Inl e, w)
      | Inr action \<Rightarrow>
          if \<not> truthy action then (Inr (), say (InvalidEvent eventId) w)
          else
            (case switch_action E action body w of
               (Inl e, w1) \<Rightarrow> (Inr (), say (ErrorProcessingEvent eventId e) w1)
             | (Inr Returned, w1) \<Rightarrow> (Inr (), w1)
             | (Inr Completed, w1) \<Rightarrow> (Inr (), redis_del eventId w1)))"

section \<open>Intake\<close>

text \<open>
  The handler of \<^verbatim>\<open>POST /github-membership\<close>. It answers with a status and a message, or
  throws before answering: the read of \<^verbatim>\<open>req.body.action\<close> when there is no body, and
  the template literal of \<^verbatim>\<open>Received action\<close>, which is after the write to Redis and
  before the \<^verbatim>\<open>try\<close>, when the action does not convert to a string.
  The identifier and the expiry are computed from one reading of the clock.
\<close>

datatype http_response = Response nat string

definition post_github_membership ::
  "'b environment \<Rightarrow> jsval \<Rightarrow> 'b world \<Rightarrow> (js_error + http_response) \<times> 'b world" where
  "post_github_membership E req_body w =
     (case read_prop req_body ''action'' of
        Inl e \<Rightarrow> (Inl e, w)
      | Inr action \<Rightarrow>
          (let eventId = event_id E w;
               w1 = redis_set E eventId req_body 86400 w
           in if \<not> truthy action
              then (Inr (Response 400 ''Missing action in request body''), w1)
              else if to_string_throws action then (Inl TypeError, w1)
              else
                (case processMembershipEvent E eventId req_body (say (ReceivedAction action) w1) of
                   (Inr u, w2) \<Rightarrow> (Inr (Response 200 ''Event processed successfully''), w2)
                 | (Inl e, w2) \<Rightarrow>
                     (Inr (Response 500 ''Internal server error''), say (ErrorHandlingEvent e) w2))))"

text \<open>
  The README of the repository lists an earlier form of the same handler, which tests
  \<^verbatim>\<open>action\<close> first and writes to Redis after the test. It is modelled for comparison
  only; the program is the handler above.
\<close>

definition post_github_membership_readme ::
  "'b environment \<Rightarrow> jsval \<Rightarrow> 'b world \<Rightarrow> (js_error + http_response) \<times> 'b world" where
  "post_github_membership_readme E req_body w =
     (case read_prop req_body ''action'' of
        Inl e \<Rightarrow> (Inl e, w)
      | Inr action \<Rightarrow>
          if \<not> truthy action
          then (Inr (Response 400 ''Missing action in request body''), w)
          else if to_string_throws action then (Inl TypeError, w)
          else
            (let w1 = say (ReceivedAction action) w;
                 eventId = event_id E w1;
                 w2 = redis_set E eventId req_body 86400 w1
             in case processMembershipEvent E eventId req_body w2 of
                  (Inr u, w3) \<Rightarrow> (Inr (Response 200 ''Event processed successfully''), w3)
                | (Inl e, w3) \<Rightarrow>
                    (Inr (Response 500 ''Internal server error''),
                     say (ErrorHandlingEvent e) w3)))"

section \<open>Retry sweep and recovery replay\<close>

text \<open>
  The \<^verbatim>\<open>for (const key of keys)\<close> loop of the \<^verbatim>\<open>setInterval\<close> callback and the one
  of the \<^verbatim>\<open>app.listen\<close> callback, each translated from its own lines. A throw from
  \<^verbatim>\<open>processMembershipEvent\<close> would leave the loop.

  A run of a handler or of a pass is one sequential computation on the state. What
  other runs and the passing of time do between the enumeration of the keys and a later
  read is covered by the loops taking any key list and any state.
\<close>

fun retry_loop ::
  "'b environment \<Rightarrow> string list \<Rightarrow> 'b world \<Rightarrow> (js_error + unit) \<times> 'b world" where
  "retry_loop E [] w = (Inr (), w)"
| "retry_loop E (key # keys) w =
     (case redis_get E w key of
        None \<Rightarrow> retry_loop E keys w
      | Some eventData \<Rightarrow>
          (case processMembershipEvent E key eventData w of
             (Inl e, w1) \<Rightarrow> (Inl e, w1)
           | (Inr u, w1) \<Rightarrow> retry_loop E keys w1))"

definition retry_sweep :: "'b environment \<Rightarrow> 'b world \<Rightarrow> (js_error + unit) \<times> 'b world" where
  "retry_sweep E w =
     (let w1 = say RetryingFailedEvents w;
          keys = redis_keys E w1
      in retry_loop E keys w1)"

fun replay_loop ::
  "'b environment \<Rightarrow> string list \<Rightarrow> 'b world \<Rightarrow> (js_error + unit) \<times> 'b world" where
  "replay_loop E [] w = (Inr (), w)"
| "replay_loop E (key # keys) w =
     (case redis_get E w key of
        None \<Rightarrow> replay_loop E keys w
      | Some eventData \<Rightarrow>
          (case processMembershipEvent E key eventData w of
             (Inl e, w1) \<Rightarrow> (Inl e, w1)
           | (Inr u, w1) \<Rightarrow> replay_loop E keys w1))"

definition recovery_replay :: "'b environment \<Rightarrow> 'b world \<Rightarrow> (js_error + unit) \<times> 'b world" where
  "recovery_replay E w =
     (let w1 = say ReplayingPendingEvents w;
          keys = redis_keys E w1
      in case replay_loop E keys w1 of
           (Inl e, w2) \<Rightarrow> (Inl e, w2)
         | (Inr u, w2) \<Rightarrow> (Inr (), say ServerRunning w2))"

section \<open>Notions used by the properties\<close>

text \<open>
  The delivery code reports its success on the console, and nowhere else: the line
  \<^verbatim>\<open>Role assigned successfully in Permit\<close> ends a delivered \<^verbatim>\<open>member_added\<close> event, the
  line \<^verbatim>\<open>User removed successfully from Permit\<close> a delivered \<^verbatim>\<open>member_removed\<close> event.
\<close>

fun reports_success :: "log_entry \<Rightarrow> bool" where
  "reports_success (RoleAssigned roleResponse) = True"
| "reports_success UserRemovedFromPermit = True"
| "reports_success l = False"

text \<open>
  Processing a record reaches \<^verbatim>\<open>redis.del\<close>: the action is there and the \<^verbatim>\<open>switch\<close>
  is left without a throw or a \<^verbatim>\<open>return\<close>.
\<close>

definition reaches_redis_del :: "'b environment \<Rightarrow> jsval \<Rightarrow> 'b world \<Rightarrow> bool" where
  "reaches_redis_del E body w =
     (\<not> nullish body \<and> truthy (getp body ''action'')
      \<and> fst (switch_action E (getp body ''action'') body w) = Inr Completed)"

text \<open>
  A malformed record, by the guards of \<^verbatim>\<open>createPermitUserAssignRole\<close> and
  \<^verbatim>\<open>removePermitUser\<close>: a \<^verbatim>\<open>member_added\<close> event without membership, user or role, a
  \<^verbatim>\<open>member_removed\<close> event without membership or user.
\<close>

definition malformed :: "jsval \<Rightarrow> bool" where
  "malformed body =
     (let membership = getp body ''membership'' in
      (getp body ''action'' = JStr ''member_added'' \<and>
         (\<not> truthy membership \<or> \<not> truthy (getp membership ''user'')
          \<or> \<not> truthy (getp membership ''role'')))
      \<or> (getp body ''action'' = JStr ''member_removed'' \<and>
         (\<not> truthy membership \<or> \<not> truthy (getp membership ''user''))))"

text \<open>
  The handler reads \<^verbatim>\<open>req.body.action\<close> before it writes to Redis, so a body it stores is
  never \<^verbatim>\<open>null\<close> or \<^verbatim>\<open>undefined\<close>. \<open>stored_by_intake\<close> is that invariant of the store.
\<close>

definition stored_by_intake :: "'b world \<Rightarrow> bool" where
  "stored_by_intake w = (\<forall>(k, v, expires) \<in> set (store w). \<not> nullish v)"

text \<open>One turn of a loop, whatever its outcome: read the key, process what is there.\<close>

definition attempt :: "'b environment \<Rightarrow> 'b world \<Rightarrow> string \<Rightarrow> 'b world" where
  "attempt E w key =
     (case redis_get E w key of
        None \<Rightarrow> w
      | Some eventData \<Rightarrow> snd (processMembershipEvent E key eventData w))"

text \<open>
  Successive passes of the \<^verbatim>\<open>setInterval\<close> timer. Between two passes the outside world
  moves on by itself (five minutes pass, the backend comes back): one function on the
  environment state per pass.
\<close>

fun passes :: "'b environment \<Rightarrow> ('b \<Rightarrow> 'b) list \<Rightarrow> 'b world \<Rightarrow> 'b world" where
  "passes E [] w = w"
| "passes E (d # ds) w = passes E ds (snd (retry_sweep E (w\<lparr>env := d (env w)\<rparr>)))"

text \<open>Two states that differ at most in the console output.\<close>

definition same_effects :: "'b world \<Rightarrow> 'b world \<Rightarrow> bool" where
  "same_effects w w' = (store w = store w' \<and> env w = env w' \<and> calls w = calls w')"

section \<open>Example inputs\<close>

text \<open>
  A backend that rejects every call and one that resolves every call; the environment
  state is the time in milliseconds, which stands still.
\<close>

definition backend_down :: "nat environment" where
  "backend_down = \<lparr>api = (\<lambda>t c. (Rejected, t)), clock = (\<lambda>t. t)\<rparr>"

definition backend_up :: "nat environment" where
  "backend_up = \<lparr>api = (\<lambda>t c. (Resolved (JObj [(''id'', JStr ''u1'')]), t)), clock = (\<lambda>t. t)\<rparr>"

definition alice_added :: jsval where
  "alice_added =
     JObj [(''action'', JStr ''member_added''),
           (''membership'', JObj [(''user'', JObj [(''login'', JStr ''alice'')]),
                                  (''role'', JStr ''admin'')])]"

definition added_without_membership :: jsval where
  "added_without_membership = JObj [(''action'', JStr ''member_added'')]"

definition added_with_odd_login :: jsval where
  "added_with_odd_login =
     JObj [(''action'', JStr ''member_added''),
           (''membership'', JObj [(''user'', JObj [(''login'', JObj [(''toString'', JNum 1)])]),
                                  (''role'', JStr ''admin'')])]"

definition invited :: jsval where
  "invited = JObj [(''action'', JStr ''member_invited'')]"

definition idle :: "'b \<Rightarrow> 'b world" where
  "idle t = \<lparr>store = [], env = t, calls = [], console = []\<rparr>"

definition pending :: "'b \<Rightarrow> (string \<times> redis_entry) list \<Rightarrow> 'b world" where
  "pending t entries = \<lparr>store = entries, env = t, calls = [], console = []\<rparr>"

text \<open>
  A backend that is down during the first five minutes (it rejects every call before
  time 300000) and reachable afterwards.
\<close>

definition backend_recovering :: "nat environment" where
  "backend_recovering =
     \<lparr>api = (\<lambda>t c. (if t < 300000 then Rejected else Resolved (JObj [(''id'', JStr ''u1'')]), t)),
      clock = (\<lambda>t. t)\<rparr>"

declare string_of_nat.simps [simp del]

lemmas program_defs =
  post_github_membership_def processMembershipEvent_def switch_action_def
  createPermitUserAssignRole_def removePermitUser_def create_and_assign_def
  call_api_def say_def redis_set_def redis_get_def redis_del_def redis_keys_def
  event_id_def read_prop_def retry_sweep_def recovery_replay_def Let_def

lemmas example_defs =
  backend_down_def backend_up_def backend_recovering_def alice_added_def added_without_membership_def added_with_odd_login_def
  invited_def idle_def pending_def digit_def string_of_nat.simps

section \<open>Frame properties\<close>

lemma say_simps [simp]:
  "store (say l w) = store w" "env (say l w) = env w" "calls (say l w) = calls w"
  "console (say l w) = console w @ [l]"
  by (simp_all add: say_def)

lemma redis_del_simps [simp]:
  "store (redis_del k w) = AList.delete k (store w)" "env (redis_del k w) = env w"
  "calls (redis_del k w) = calls w" "console (redis_del k w) = console w"
  by (simp_all add: redis_del_def)

lemma redis_set_simps [simp]:
  "store (redis_set E k v s w) = AList.update k (v, clock E (env w) + s * 1000) (store w)"
  "env (redis_set E k v s w) = env w"
  "calls (redis_set E k v s w) = calls w" "console (redis_set E k v s w) = console w"
  by (simp_all add: redis_set_def)

lemma call_api_store [simp]: "store (snd (call_api E c w)) = store w"
  by (simp add: call_api_def split: prod.splits)

lemma call_api_calls [simp]: "calls (snd (call_api E c w)) = calls w @ [c]"
  by (simp add: call_api_def split: prod.splits)

lemma create_and_assign_store [simp]: "store (create_and_assign E u r w) = store w"
  by (simp add: create_and_assign_def Let_def case_prod_unfold
           split: api_outcome.splits sum.splits)

lemma createPermitUserAssignRole_store [simp]:
  "store (snd (createPermitUserAssignRole E body w)) = store w"
  by (simp add: createPermitUserAssignRole_def Let_def split: sum.splits)

lemma removePermitUser_store [simp]:
  "store (snd (removePermitUser E body w)) = store w"
  by (simp add: removePermitUser_def Let_def case_prod_unfold
           split: sum.splits api_outcome.splits)

lemma switch_action_store [simp]:
  "store (snd (switch_action E a body w)) = store w"
  by (simp add: switch_action_def case_prod_unfold split: sum.splits)

lemma processMembershipEvent_returns:
  "\<not> nullish body \<Longrightarrow> fst (processMembershipEvent E k body w) = Inr ()"
  by (simp add: processMembershipEvent_def read_prop_def case_prod_unfold
           split: sum.splits completion.splits)

lemma processMembershipEvent_store:
  "store (snd (processMembershipEvent E k body w)) =
     (if \<not> nullish body \<and> truthy (getp body ''action'')
         \<and> fst (switch_action E (getp body ''action'') body w) = Inr Completed
      then AList.delete k (store w) else store w)"
  by (simp add: processMembershipEvent_def read_prop_def case_prod_unfold
           split: sum.splits completion.splits)

lemma redis_get_say [simp]: "redis_get E (say l w) k = redis_get E w k"
  by (simp add: redis_get_def say_def split: option.splits)

lemma redis_get_SomeD:
  "redis_get E w k = Some d \<Longrightarrow>
     \<exists>expires. map_of (store w) k = Some (d, expires) \<and> clock E (env w) < expires"
  by (auto simp add: redis_get_def split: option.splits if_splits)

lemma redis_get_live:
  "map_of (store w) k = Some (d, expires) \<Longrightarrow>
     redis_get E w k = (if clock E (env w) < expires then Some d else None)"
  by (simp add: redis_get_def)

lemma redis_keys_iff:
  "k \<in> set (redis_keys E w) \<longleftrightarrow> prefix ''event:'' k \<and> redis_get E w k \<noteq> None"
proof -
  have "redis_get E w k \<noteq> None \<Longrightarrow> k \<in> fst ` set (store w)"
    by (cases "map_of (store w) k")
      (auto simp add: redis_get_def dest: map_of_SomeD intro: rev_image_eqI)
  then show ?thesis by (auto simp add: redis_keys_def)
qed

lemma set_delete_subset: "set (AList.delete k al) \<subseteq> set al"
  by (auto simp add: AList.delete_eq)

lemma set_update_subset: "set (AList.update k v al) \<subseteq> insert (k, v) (set al)"
  by (induction al) auto

section \<open>The console does not influence the run\<close>

lemma same_effects_refl [simp]: "same_effects w w"
  by (simp add: same_effects_def)

lemma same_effects_say [simp]: "same_effects (say l w) (say l' w') = same_effects w w'"
  by (simp add: same_effects_def)

lemma same_effects_say_left [simp]: "same_effects (say l w) w' = same_effects w w'"
  by (simp add: same_effects_def)

lemma same_effects_say_right [simp]: "same_effects w (say l w') = same_effects w w'"
  by (simp add: same_effects_def)

lemma same_effects_del: "same_effects w w' \<Longrightarrow> same_effects (redis_del k w) (redis_del k w')"
  by (simp add: same_effects_def)

lemma same_effects_get: "same_effects w w' \<Longrightarrow> redis_get E w k = redis_get E w' k"
  by (auto simp add: same_effects_def redis_get_def split: option.splits)

lemma same_effects_keys: "same_effects w w' \<Longrightarrow> redis_keys E w = redis_keys E w'"
  using same_effects_get [of w w' E] by (simp add: same_effects_def redis_keys_def)

lemma same_effects_call_api:
  "same_effects w w' \<Longrightarrow>
     fst (call_api E c w) = fst (call_api E c w') \<and>
     same_effects (snd (call_api E c w)) (snd (call_api E c w'))"
  by (simp add: same_effects_def call_api_def case_prod_unfold)

lemma same_effects_create_and_assign:
  assumes "same_effects w w'"
  shows "same_effects (create_and_assign E u r w) (create_and_assign E u r w')"
proof -
  note c1 = same_effects_call_api [OF assms, of E "CreateUser u"]
  show ?thesis
  proof (cases "fst (call_api E (CreateUser u) w)")
    case Rejected
    with c1 show ?thesis
      by (simp add: create_and_assign_def case_prod_unfold)
  next
    case (Resolved userResponse)
    show ?thesis
    proof (cases "read_prop userResponse ''id''")
      case (Inl e)
      with Resolved c1 show ?thesis
        by (simp add: create_and_assign_def case_prod_unfold)
    next
      case (Inr uid)
      have "same_effects (say (UserCreated userResponse) (snd (call_api E (CreateUser u) w)))
              (say (UserCreated userResponse) (snd (call_api E (CreateUser u) w')))"
        using c1 by simp
      note c2 = same_effects_call_api [OF this, of E "AssignRole uid r ''default''"]
      with Resolved Inr c1 show ?thesis
        by (simp add: create_and_assign_def Let_def case_prod_unfold split: api_outcome.splits)
    qed
  qed
qed

lemma same_effects_createPermitUserAssignRole:
  assumes "same_effects w w'"
  shows "fst (createPermitUserAssignRole E body w) = fst (createPermitUserAssignRole E body w') \<and>
         same_effects (snd (createPermitUserAssignRole E body w))
                      (snd (createPermitUserAssignRole E body w'))"
  using assms
  by (auto simp add: createPermitUserAssignRole_def Let_def split: sum.splits
        intro!: same_effects_create_and_assign)

lemma same_effects_removePermitUser:
  assumes "same_effects w w'"
  shows "fst (removePermitUser E body w) = fst (removePermitUser E body w') \<and>
         same_effects (snd (removePermitUser E body w)) (snd (removePermitUser E body w'))"
proof -
  have "\<And>l u. fst (call_api E (DeleteUser u) (say l w)) = fst (call_api E (DeleteUser u) (say l w')) \<and>
     same_effects (snd (call_api E (DeleteUser u) (say l w))) (snd (call_api E (DeleteUser u) (say l w')))"
    using assms by (intro same_effects_call_api) simp
  then show ?thesis using assms
    by (simp add: removePermitUser_def Let_def case_prod_unfold split: sum.splits api_outcome.splits)
qed

lemma same_effects_switch_action:
  assumes "same_effects w w'"
  shows "fst (switch_action E a body w) = fst (switch_action E a body w') \<and>
         same_effects (snd (switch_action E a body w)) (snd (switch_action E a body w'))"
proof -
  have s: "same_effects (say UserAdded w) (say UserAdded w')"
          "same_effects (say UserRemoved w) (say UserRemoved w')"
    using assms by simp_all
  show ?thesis
    using assms same_effects_createPermitUserAssignRole [OF s(1), of E body]
      same_effects_removePermitUser [OF s(2), of E body]
    by (simp add: switch_action_def case_prod_unfold split: sum.splits)
qed

lemma same_effects_processMembershipEvent:
  assumes "same_effects w w'"
  shows "fst (processMembershipEvent E k body w) = fst (processMembershipEvent E k body w') \<and>
         same_effects (snd (processMembershipEvent E k body w))
                      (snd (processMembershipEvent E k body w'))"
  using assms same_effects_switch_action [OF assms, of E "getp body ''action''" body]
  by (simp add: processMembershipEvent_def read_prop_def case_prod_unfold same_effects_del
           split: sum.splits completion.splits)

lemma same_effects_retry_loop:
  "same_effects w w' \<Longrightarrow>
     fst (retry_loop E keys w) = fst (retry_loop E keys w') \<and>
     same_effects (snd (retry_loop E keys w)) (snd (retry_loop E keys w'))"
proof (induction keys arbitrary: w w')
  case Nil
  then show ?case by simp
next
  case (Cons key keys)
  have g: "redis_get E w' key = redis_get E w key"
    using same_effects_get [OF Cons.prems] by simp
  show ?case
  proof (cases "redis_get E w key")
    case None
    with Cons g show ?thesis by simp
  next
    case (Some d)
    obtain r w1 where p: "processMembershipEvent E key d w = (r, w1)"
      by (cases "processMembershipEvent E key d w")
    obtain r' w1' where p': "processMembershipEvent E key d w' = (r', w1')"
      by (cases "processMembershipEvent E key d w'")
    from same_effects_processMembershipEvent [OF Cons.prems, of E key d] p p'
    have r: "r' = r" and s: "same_effects w1 w1'" by simp_all
    show ?thesis
    proof (cases r)
      case (Inl e)
      with Some g p p' r s show ?thesis by simp
    next
      case (Inr u)
      with Some g p p' r Cons.IH [OF s] show ?thesis by simp
    qed
  qed
qed

lemma replay_loop_eq: "replay_loop E keys w = retry_loop E keys w"
  by (induction keys arbitrary: w) (simp_all split: option.splits prod.splits sum.splits)

section \<open>Stored bodies\<close>

lemma stored_by_intake_say [simp]: "stored_by_intake (say l w) = stored_by_intake w"
  by (simp add: stored_by_intake_def)

lemma stored_by_intake_env [simp]: "stored_by_intake (w\<lparr>env := b\<rparr>) = stored_by_intake w"
  by (simp add: stored_by_intake_def)

lemma stored_by_intake_get:
  "stored_by_intake w \<Longrightarrow> redis_get E w k = Some d \<Longrightarrow> \<not> nullish d"
  by (auto simp add: stored_by_intake_def dest!: redis_get_SomeD map_of_SomeD)

lemma stored_body_not_nullish:
  "stored_by_intake w \<Longrightarrow> map_of (store w) k = Some (body, expires) \<Longrightarrow> \<not> nullish body"
  by (auto simp add: stored_by_intake_def dest!: map_of_SomeD)

lemma stored_by_intake_subset:
  "stored_by_intake w \<Longrightarrow> set (store w') \<subseteq> set (store w) \<Longrightarrow> stored_by_intake w'"
  by (auto simp add: stored_by_intake_def)

lemma stored_by_intake_process:
  "stored_by_intake w \<Longrightarrow> stored_by_intake (snd (processMembershipEvent E k d w))"
  by (rule stored_by_intake_subset [where w = w])
    (simp_all add: processMembershipEvent_store set_delete_subset)

text \<open>The handler keeps the invariant: it stores a body only after reading its action.\<close>

lemma stored_by_intake_post:
  assumes "stored_by_intake w"
  shows "stored_by_intake (snd (post_github_membership E body w))"
proof (cases "nullish body")
  case True
  with assms show ?thesis by (simp add: post_github_membership_def read_prop_def)
next
  case False
  let ?w1 = "redis_set E (event_id E w) body 86400 w"
  have w1: "stored_by_intake ?w1"
    using assms False
      set_update_subset [of "event_id E w" "(body, clock E (env w) + 86400 * 1000)" "store w"]
    by (auto simp add: stored_by_intake_def)
  then have "stored_by_intake (say l ?w1)" for l
    by simp
  from stored_by_intake_process [OF this] w1 False show ?thesis
    by (simp add: post_github_membership_def read_prop_def Let_def case_prod_unfold
          split: sum.splits)
qed

section \<open>A loop attempts every key\<close>

text \<open>
  On a store written by the handler no turn of the loop throws, so the loop is the
  composition of the turns over all the enumerated keys, whatever each turn's outcome.
\<close>

lemma stored_by_intake_attempt:
  "stored_by_intake w \<Longrightarrow> stored_by_intake (attempt E w key)"
  by (simp add: attempt_def stored_by_intake_process split: option.splits)

lemma stored_by_intake_loop:
  "stored_by_intake w \<Longrightarrow> stored_by_intake (foldl (attempt E) w keys)"
  by (induction keys arbitrary: w) (simp_all add: stored_by_intake_attempt)

lemma retry_loop_isolation:
  "stored_by_intake w \<Longrightarrow> retry_loop E keys w = (Inr (), foldl (attempt E) w keys)"
proof (induction keys arbitrary: w)
  case Nil
  then show ?case by simp
next
  case (Cons key keys)
  show ?case
  proof (cases "redis_get E w key")
    case None
    with Cons show ?thesis by (simp add: attempt_def)
  next
    case (Some d)
    from stored_by_intake_get [OF Cons.prems Some]
    have r: "fst (processMembershipEvent E key d w) = Inr ()"
      by (rule processMembershipEvent_returns)
    from Cons.IH [OF stored_by_intake_process [OF Cons.prems, of E key d]] Some r
    show ?thesis by (simp add: attempt_def case_prod_unfold)
  qed
qed

lemma retry_sweep_fold:
  "stored_by_intake w \<Longrightarrow>
     retry_sweep E w =
       (Inr (), foldl (attempt E) (say RetryingFailedEvents w)
                  (redis_keys E (say RetryingFailedEvents w)))"
  by (simp add: retry_sweep_def Let_def retry_loop_isolation)

lemma stored_by_intake_retry_sweep:
  "stored_by_intake w \<Longrightarrow> stored_by_intake (snd (retry_sweep E w))"
  by (simp add: retry_sweep_fold stored_by_intake_loop)

lemma attempt_store:
  "store (attempt E w key) = store w \<or> store (attempt E w key) = AList.delete key (store w)"
  by (simp add: attempt_def processMembershipEvent_store split: option.splits)

lemma attempt_absent:
  "map_of (store w) k = None \<Longrightarrow> map_of (store (attempt E w key)) k = None"
  using attempt_store [of E w key] by (auto simp add: AList.delete_conv)

lemma attempt_other:
  "key \<noteq> k \<Longrightarrow> map_of (store (attempt E w key)) k = map_of (store w) k"
  using attempt_store [of E w key] by auto

lemma loop_absent:
  "map_of (store w) k = None \<Longrightarrow> map_of (store (foldl (attempt E) w keys)) k = None"
  by (induction keys arbitrary: w) (simp_all add: attempt_absent)

section \<open>What decides the deletion\<close>

text \<open>
  Whether the delivery functions throw is decided by the record's content alone (the
  guard on the membership data and the template literal): the outcome of the backend
  calls never reaches the caller.
\<close>

lemma createPermitUserAssignRole_outcome:
  "fst (createPermitUserAssignRole E body w) = fst (createPermitUserAssignRole E' body w')"
  by (simp add: createPermitUserAssignRole_def Let_def split: sum.splits)

lemma removePermitUser_outcome:
  "fst (removePermitUser E body w) = fst (removePermitUser E' body w')"
  by (simp add: removePermitUser_def Let_def case_prod_unfold
        split: sum.splits api_outcome.splits)

lemma switch_action_outcome:
  "fst (switch_action E a body w) = fst (switch_action E' a body w')"
  using createPermitUserAssignRole_outcome [of E body "say UserAdded w" E' "say UserAdded w'"]
    removePermitUser_outcome [of E body "say UserRemoved w" E' "say UserRemoved w'"]
  by (simp add: switch_action_def case_prod_unfold split: sum.splits)

lemma reaches_redis_del_content:
  "reaches_redis_del E body w = reaches_redis_del E' body w'"
  using switch_action_outcome [of E "getp body ''action''" body w E' w']
  by (simp add: reaches_redis_del_def)

lemma attempt_deletes_iff_reached:
  "store (snd (processMembershipEvent E k body w)) =
     (if reaches_redis_del E' body w' then AList.delete k (store w) else store w)"
  using reaches_redis_del_content [of E body w E' w']
  by (simp add: processMembershipEvent_store reaches_redis_del_def)

lemma wellformed_reaches_redis_del:
  assumes "\<not> nullish body"
    and "getp body ''action'' = JStr ''member_added''
         \<or> getp body ''action'' = JStr ''member_removed''"
    and "\<not> malformed body"
    and "\<not> to_string_throws (getp (getp (getp body ''membership'') ''user'') ''login'')"
    and "\<not> to_string_throws (getp (getp body ''membership'') ''role'')"
  shows "reaches_redis_del E body w"
  using assms
  by (auto simp add: reaches_redis_del_def switch_action_def malformed_def Let_def
        createPermitUserAssignRole_def removePermitUser_def read_prop_def case_prod_unfold
        split: api_outcome.splits)

lemma malformed_throws:
  assumes "\<not> nullish body" "malformed body"
  shows "switch_action E (getp body ''action'') body w =
           (Inl (Error ''Invalid membership data''),
            say (if getp body ''action'' = JStr ''member_added'' then UserAdded
                 else UserRemoved) w)"
  using assms
  by (auto simp add: malformed_def Let_def switch_action_def createPermitUserAssignRole_def
        removePermitUser_def read_prop_def)

text \<open>
  A login that does not convert to a string: the template literal throws before any
  backend call, the error is logged and the record is kept. An action that does not
  convert makes the handler throw after it has stored the record.
\<close>

lemma template_literal_throws_examples:
  "processMembershipEvent backend_up ''event:5'' added_with_odd_login
     (pending 5 [(''event:5'', added_with_odd_login, 86400005)]) =
     (Inr (),
      \<lparr>store = [(''event:5'', added_with_odd_login, 86400005)], env = 5, calls = [],
       console = [UserAdded, ErrorProcessingEvent ''event:5'' TypeError]\<rparr>)"
  "post_github_membership backend_up (JObj [(''action'', JObj [(''toString'', JNum 1)])])
     (idle 5) =
     (Inl TypeError,
      \<lparr>store = [(''event:5'', JObj [(''action'', JObj [(''toString'', JNum 1)])], 86400005)],
       env = 5, calls = [], console = []\<rparr>)"
  by (simp_all add: program_defs example_defs)

section \<open>The fate of a record over the passes\<close>

lemma record_fate_in_loop:
  assumes "stored_by_intake w"
    and "map_of (store w) k = Some (body, expires)"
    and "\<forall>b. clock E b < expires"
  shows "map_of (store (foldl (attempt E) w keys)) k =
           (if k \<in> set keys \<and> reaches_redis_del E' body w' then None
            else Some (body, expires))"
  using assms(1,2)
proof (induction keys arbitrary: w)
  case Nil
  then show ?case by simp
next
  case (Cons key keys)
  let ?w1 = "attempt E w key"
  have inv: "stored_by_intake ?w1"
    using Cons.prems(1) by (rule stored_by_intake_attempt)
  show ?case
  proof (cases "key = k")
    case False
    with Cons.prems(2) have "map_of (store ?w1) k = Some (body, expires)"
      by (simp add: attempt_other)
    from Cons.IH [OF inv this] False show ?thesis by auto
  next
    case True
    have g: "redis_get E w k = Some body"
      using redis_get_live [OF Cons.prems(2), of E] assms(3) by simp
    then have a: "?w1 = snd (processMembershipEvent E k body w)"
      using True by (simp add: attempt_def)
    note s = attempt_deletes_iff_reached [of E k body w E' w']
    show ?thesis
    proof (cases "reaches_redis_del E' body w'")
      case reached: True
      with a s have "map_of (store ?w1) k = None"
        by (simp add: AList.delete_conv)
      from loop_absent [OF this, of E keys] reached True show ?thesis by simp
    next
      case kept: False
      with a s Cons.prems(2) have "map_of (store ?w1) k = Some (body, expires)" by simp
      from Cons.IH [OF inv this] kept show ?thesis by simp
    qed
  qed
qed

lemma passes_absent:
  "stored_by_intake w \<Longrightarrow> map_of (store w) k = None \<Longrightarrow>
     map_of (store (passes E ds w)) k = None"
proof (induction ds arbitrary: w)
  case Nil
  then show ?case by simp
next
  case (Cons d ds)
  let ?w0 = "w\<lparr>env := d (env w)\<rparr>"
  have i0: "stored_by_intake ?w0" using Cons.prems(1) by simp
  have "map_of (store (say RetryingFailedEvents ?w0)) k = None" using Cons.prems(2) by simp
  from loop_absent [OF this, of E] have "map_of (store (snd (retry_sweep E ?w0))) k = None"
    by (simp add: retry_sweep_fold [OF i0])
  from Cons.IH [OF stored_by_intake_retry_sweep [OF i0] this] show ?case by simp
qed

text \<open>
  A record that never expires is gone after the first pass exactly when its content
  lets the processing reach \<^verbatim>\<open>redis.del\<close>, whatever the backend answers (\<open>E'\<close> and
  \<open>w'\<close> are any environment and state).
\<close>

lemma record_fate_in_passes:
  assumes "stored_by_intake w"
    and "map_of (store w) k = Some (body, expires)"
    and "prefix ''event:'' k"
    and "\<forall>b. clock E b < expires"
  shows "map_of (store (passes E ds w)) k =
           (if ds \<noteq> [] \<and> reaches_redis_del E' body w' then None
            else Some (body, expires))"
  using assms(1,2)
proof (induction ds arbitrary: w)
  case Nil
  then show ?case by simp
next
  case (Cons d ds)
  let ?w0 = "w\<lparr>env := d (env w)\<rparr>"
  let ?w1 = "say RetryingFailedEvents ?w0"
  have i0: "stored_by_intake ?w0" using Cons.prems(1) by simp
  have i1: "stored_by_intake ?w1" using Cons.prems(1) by simp
  have m1: "map_of (store ?w1) k = Some (body, expires)" using Cons.prems(2) by simp
  have "redis_get E ?w1 k = Some body"
    using redis_get_live [OF m1, of E] assms(4) by simp
  with assms(3) have k: "k \<in> set (redis_keys E ?w1)" by (simp add: redis_keys_iff)
  note f = record_fate_in_loop [OF i1 m1 assms(4), of "redis_keys E ?w1" E' w']
  note i2 = stored_by_intake_retry_sweep [OF i0, of E]
  show ?case
  proof (cases "reaches_redis_del E' body w'")
    case True
    with f k have "map_of (store (snd (retry_sweep E ?w0))) k = None"
      by (simp add: retry_sweep_fold [OF i0])
    from passes_absent [OF i2 this, of E ds] True show ?thesis by simp
  next
    case False
    with f have "map_of (store (snd (retry_sweep E ?w0))) k = Some (body, expires)"
      by (simp add: retry_sweep_fold [OF i0])
    from Cons.IH [OF i2 this] False show ?thesis by simp
  qed
qed

section \<open>Decimal digits\<close>

lemma digit_inj: "a < 10 \<Longrightarrow> b < 10 \<Longrightarrow> digit a = digit b \<Longrightarrow> a = b"
proof -
  assume a: "a < 10" and b: "b < 10" and e: "digit a = digit b"
  have d: "distinct ''0123456789''" by simp
  have l: "length ''0123456789'' = 10" by simp
  from e have "''0123456789'' ! a = ''0123456789'' ! b" by (simp add: digit_def)
  with d a b l show "a = b" by (metis nth_eq_iff_index_eq)
qed

lemma string_of_nat_nonempty: "string_of_nat n \<noteq> []"
  by (subst string_of_nat.simps) simp

lemma string_of_nat_inj: "string_of_nat n = string_of_nat m \<Longrightarrow> n = m"
proof (induction n arbitrary: m rule: string_of_nat.induct)
  case (1 n)
  show ?case
  proof (cases "n < 10")
    case n: True
    show ?thesis
    proof (cases "m < 10")
      case True
      with n "1.prems" show ?thesis
        by (simp add: string_of_nat.simps [of n] string_of_nat.simps [of m] digit_inj)
    next
      case False
      with n "1.prems" string_of_nat_nonempty [of "m div 10"] show ?thesis
        by (simp add: string_of_nat.simps [of n] string_of_nat.simps [of m])
    qed
  next
    case n: False
    show ?thesis
    proof (cases "m < 10")
      case True
      with n "1.prems" string_of_nat_nonempty [of "n div 10"] show ?thesis
        by (simp add: string_of_nat.simps [of n] string_of_nat.simps [of m])
    next
      case False
      with n "1.prems" have s: "string_of_nat (n div 10) = string_of_nat (m div 10)"
        and d: "digit (n mod 10) = digit (m mod 10)"
        by (simp_all add: string_of_nat.simps [of n] string_of_nat.simps [of m])
      from "1.IH" [OF n s] have q: "n div 10 = m div 10" .
      from d have r: "n mod 10 = m mod 10" by (intro digit_inj) simp_all
      from q r show ?thesis by (metis div_mult_mod_eq)
    qed
  qed
qed

section \<open>Properties of the specification\<close>

subsection \<open>Delivery failures\<close>

text \<open>
  C1. The specification asks that a record whose delivery fails with a backend error
  (\<^verbatim>\<open>createUser\<close>, \<^verbatim>\<open>assignRole\<close> or \<^verbatim>\<open>deleteUser\<close> rejects) stays in the store for the
  next sweep. The program does not do that. With the backend rejecting every call, a
  well-formed \<^verbatim>\<open>member_added\<close> record is deleted by the sweep that fails to deliver it,
  and the same request at the endpoint is answered 200 and leaves nothing in the store:
  the \<^verbatim>\<open>catch\<close> inside \<^verbatim>\<open>createPermitUserAssignRole\<close> logs the rejection and does not
  rethrow, so \<^verbatim>\<open>processMembershipEvent\<close> goes on to \<^verbatim>\<open>redis.del\<close>.
\<close>

theorem backend_rejection_record_deleted:
  "retry_sweep backend_down (pending 5 [(''event:5'', alice_added, 86400005)]) =
     (Inr (),
      \<lparr>store = [], env = 5, calls = [CreateUser (JStr ''alice'')],
       console = [RetryingFailedEvents, UserAdded,
                  CreatingPermitUser (JStr ''alice'') (JStr ''admin''),
                  ErrorCreatingOrAssigning]\<rparr>) \<and>
   post_github_membership backend_down alice_added (idle 5) =
     (Inr (Response 200 ''Event processed successfully''),
      \<lparr>store = [], env = 5, calls = [CreateUser (JStr ''alice'')],
       console = [ReceivedAction (JStr ''member_added''), UserAdded,
                  CreatingPermitUser (JStr ''alice'') (JStr ''admin''),
                  ErrorCreatingOrAssigning]\<rparr>)"
  by (simp add: program_defs example_defs)

text \<open>
  The same happens for every well-formed record and every backend: the answers of the
  backend do not decide whether the record is deleted.
\<close>

lemma wellformed_record_deleted_whatever_the_backend:
  assumes "\<not> nullish body"
    and "getp body ''action'' = JStr ''member_added''
         \<or> getp body ''action'' = JStr ''member_removed''"
    and "\<not> malformed body"
    and "\<not> to_string_throws (getp (getp (getp body ''membership'') ''user'') ''login'')"
    and "\<not> to_string_throws (getp (getp body ''membership'') ''role'')"
  shows "store (snd (processMembershipEvent E k body w)) = AList.delete k (store w)"
  using attempt_deletes_iff_reached [of E k body w E w]
    wellformed_reaches_redis_del [OF assms, of E w]
  by simp

text \<open>
  C2. The specification asks that a \<^verbatim>\<open>member_added\<close> or \<^verbatim>\<open>member_removed\<close> record is
  deleted if and only if delivery is observed to report success for it, given that the
  backend becomes reachable before the record expires. The program does not do that. A
  well-formed \<^verbatim>\<open>member_added\<close> event arrives at time 5 while the backend is down; the
  backend is reachable again at the next pass of the timer, five minutes later. The
  record is deleted at intake, after the one rejected \<^verbatim>\<open>createUser\<close>; the pass finds
  nothing to retry, no further backend call is made, and no line of the console reports
  a success. The cause is the one of C1: the rejection is caught inside
  \<^verbatim>\<open>createPermitUserAssignRole\<close> and never reaches \<^verbatim>\<open>processMembershipEvent\<close>.
\<close>

theorem record_deleted_without_reported_success:
  "fst (api backend_recovering 300005 (CreateUser (JStr ''alice''))) =
     Resolved (JObj [(''id'', JStr ''u1'')]) \<and>
   post_github_membership backend_recovering alice_added (idle 5) =
     (Inr (Response 200 ''Event processed successfully''),
      \<lparr>store = [], env = 5, calls = [CreateUser (JStr ''alice'')],
       console = [ReceivedAction (JStr ''member_added''), UserAdded,
                  CreatingPermitUser (JStr ''alice'') (JStr ''admin''),
                  ErrorCreatingOrAssigning]\<rparr>) \<and>
   passes backend_recovering [\<lambda>t. t + 300000]
     (snd (post_github_membership backend_recovering alice_added (idle 5))) =
     \<lparr>store = [], env = 300005, calls = [CreateUser (JStr ''alice'')],
      console = [ReceivedAction (JStr ''member_added''), UserAdded,
                 CreatingPermitUser (JStr ''alice'') (JStr ''admin''),
                 ErrorCreatingOrAssigning, RetryingFailedEvents]\<rparr> \<and>
   \<not> list_ex reports_success
        (console (passes backend_recovering [\<lambda>t. t + 300000]
           (snd (post_github_membership backend_recovering alice_added (idle 5)))))"
  by (simp add: program_defs example_defs)

text \<open>
  C3, as the specification states it, fails: a malformed record is not removed. A
  \<^verbatim>\<open>member_added\<close> record without a membership object is still read back after it has
  been processed.
\<close>

theorem malformed_record_counterexample:
  "malformed added_without_membership \<and>
   redis_get backend_up
     (snd (processMembershipEvent backend_up ''event:5'' added_without_membership
            (pending 5 [(''event:5'', added_without_membership, 86400005)])))
     ''event:5'' = Some added_without_membership"
  by (simp add: program_defs example_defs malformed_def)

text \<open>
  C3, amended. Processing a malformed record (a \<^verbatim>\<open>member_added\<close> record without
  membership, user or role, a \<^verbatim>\<open>member_removed\<close> record without membership or user) is
  a validation failure that is logged and makes no backend call; the record is left in
  the store as it was, so later sweeps read it again (until it expires).
\<close>

theorem malformed_record_kept:
  assumes "\<not> nullish body" and "malformed body"
  shows "fst (processMembershipEvent E eventId body w) = Inr () \<and>
         store (snd (processMembershipEvent E eventId body w)) = store w \<and>
         env (snd (processMembershipEvent E eventId body w)) = env w \<and>
         calls (snd (processMembershipEvent E eventId body w)) = calls w \<and>
         redis_get E (snd (processMembershipEvent E eventId body w)) eventId =
           redis_get E w eventId \<and>
         last (console (snd (processMembershipEvent E eventId body w))) =
           ErrorProcessingEvent eventId (Error ''Invalid membership data'')"
proof -
  from assms(2) have t: "truthy (getp body ''action'')"
    by (auto simp add: malformed_def Let_def)
  have "processMembershipEvent E eventId body w =
          (Inr (), say (ErrorProcessingEvent eventId (Error ''Invalid membership data''))
             (say (if getp body ''action'' = JStr ''member_added'' then UserAdded
                   else UserRemoved) w))"
    using assms(1) t malformed_throws [OF assms, of E w]
    by (simp add: processMembershipEvent_def read_prop_def)
  then show ?thesis by simp
qed

theorem malformed_record_kept_witness:
  "\<not> nullish added_without_membership \<and> malformed added_without_membership \<and>
   store (snd (processMembershipEvent backend_up ''event:5'' added_without_membership
                 (pending 5 [(''event:5'', added_without_membership, 86400005)])))
     = [(''event:5'', added_without_membership, 86400005)] \<and>
   calls (snd (processMembershipEvent backend_up ''event:5'' added_without_membership
                 (pending 5 [(''event:5'', added_without_membership, 86400005)]))) = [] \<and>
   last (console (snd (processMembershipEvent backend_up ''event:5'' added_without_membership
                 (pending 5 [(''event:5'', added_without_membership, 86400005)])))) =
     ErrorProcessingEvent ''event:5'' (Error ''Invalid membership data'')"
  using malformed_record_kept [of added_without_membership backend_up "''event:5''"
      "pending 5 [(''event:5'', added_without_membership, 86400005)]"]
  by (simp add: malformed_def added_without_membership_def pending_def)

subsection \<open>Ignored events\<close>

text \<open>
  C4. The specification asks that a \<^verbatim>\<open>member_invited\<close> record makes no backend call,
  reports success and is deleted. The program makes no backend call and does not throw,
  but it does not delete the record: the \<^verbatim>\<open>return\<close> of the \<^verbatim>\<open>member_invited\<close> case
  leaves \<^verbatim>\<open>processMembershipEvent\<close> before \<^verbatim>\<open>redis.del\<close>. At the endpoint the request is
  answered 200 and its record stays; every later sweep finds it again.
\<close>

theorem member_invited_record_kept:
  "retry_sweep backend_up (pending 5 [(''event:5'', invited, 86400005)]) =
     (Inr (),
      \<lparr>store = [(''event:5'', invited, 86400005)], env = 5, calls = [],
       console = [RetryingFailedEvents, IgnoringMemberInvited]\<rparr>) \<and>
   post_github_membership backend_up invited (idle 5) =
     (Inr (Response 200 ''Event processed successfully''),
      \<lparr>store = [(''event:5'', invited, 86400005)], env = 5, calls = [],
       console = [ReceivedAction (JStr ''member_invited''), IgnoringMemberInvited]\<rparr>)"
  by (simp add: program_defs example_defs)

text \<open>In general: a \<^verbatim>\<open>member_invited\<close> record is logged as ignored and nothing else happens.\<close>

lemma member_invited_only_logged:
  "getp body ''action'' = JStr ''member_invited'' \<Longrightarrow>
     processMembershipEvent E k body w = (Inr (), say IgnoringMemberInvited w)"
  by (cases "nullish body")
    (auto simp add: processMembershipEvent_def read_prop_def switch_action_def
       elim: nullish.elims)

subsection \<open>Intake\<close>




text \<open>
  The handler as listed in the README does reject such a payload before it writes.
\<close>

lemma readme_listing_rejects_before_store:
  "\<not> nullish body \<Longrightarrow> \<not> truthy (getp body ''action'') \<Longrightarrow>
     post_github_membership_readme E body w =
       (Inr (Response 400 ''Missing action in request body''), w)"
  by (simp add: post_github_membership_readme_def read_prop_def)

text \<open>
  C6, as the specification states it, fails: two requests accepted in the same
  millisecond get the same identifier, and the record of the second replaces the record
  of the first.
\<close>

theorem same_millisecond_counterexample:
  "event_id backend_up (idle 5) = ''event:5'' \<and>
   event_id backend_up (snd (post_github_membership backend_up (JObj []) (idle 5))) = ''event:5'' \<and>
   store (snd (post_github_membership backend_up invited
                 (snd (post_github_membership backend_up (JObj []) (idle 5))))) =
     [(''event:5'', invited, 86400005)]"
  by (simp add: program_defs example_defs)

text \<open>
  C6, amended. The identifier is the clock reading, so two records get distinct
  identifiers exactly when they are accepted at distinct millisecond readings of the
  clock.
\<close>

theorem event_ids_equal_iff_clock_readings_equal:
  "(event_id E w = event_id E' w') = (clock E (env w) = clock E' (env w'))"
  by (auto simp add: event_id_def dest: string_of_nat_inj)

theorem event_ids_equal_iff_clock_readings_equal_witness:
  "event_id backend_up (idle 5) \<noteq> event_id backend_down (idle 6) \<and>
   event_id backend_up (idle 5) = event_id backend_down (idle 5)"
  using event_ids_equal_iff_clock_readings_equal [of backend_up "idle 5" backend_down "idle 6"]
    event_ids_equal_iff_clock_readings_equal [of backend_up "idle 5" backend_down "idle 5"]
  by (simp add: backend_up_def backend_down_def idle_def)

subsection \<open>Sweep and replay\<close>

text \<open>
  C7. The recovery replay at process start is one pass of the retry sweeper: the two
  loops are the same function of the enumerated keys and the state, and from any state and
  any backend behaviour the replay and a sweep end with the same outcome, the same store,
  the same backend state and the same backend calls (they differ in the console banners
  only).
\<close>

theorem replay_is_one_sweep:
  "replay_loop E keys w = retry_loop E keys w \<and>
   fst (recovery_replay E w) = fst (retry_sweep E w) \<and>
   same_effects (snd (recovery_replay E w)) (snd (retry_sweep E w))"
proof -
  have s: "same_effects (say ReplayingPendingEvents w) (say RetryingFailedEvents w)"
    by simp
  have k: "redis_keys E (say ReplayingPendingEvents w) = redis_keys E (say RetryingFailedEvents w)"
    using s by (rule same_effects_keys)
  note l = same_effects_retry_loop [OF s, of E "redis_keys E (say RetryingFailedEvents w)"]
  show ?thesis
    using l k
    by (simp add: recovery_replay_def retry_sweep_def Let_def replay_loop_eq case_prod_unfold
          split: sum.splits)
qed

text \<open>
  C8. The specification asks that, when the delivery of one record fails in a sweep, all
  the other records are still attempted and each successful one is deleted. The first
  half holds (no failure aborts the pass: see \<open>retry_loop_isolation\<close>). The second half
  does not: in a pass over a malformed record, a \<^verbatim>\<open>member_invited\<close> record and a
  well-formed \<^verbatim>\<open>member_added\<close> record, all three are attempted, the third is delivered
  and deleted, but the \<^verbatim>\<open>member_invited\<close> record, which is processed without failure,
  is still in the store after the pass.
\<close>

theorem sweep_keeps_ignored_record:
  "retry_sweep backend_up
     (pending 5 [(''event:5'', added_without_membership, 86400005),
                 (''event:6'', invited, 86400006),
                 (''event:7'', alice_added, 86400007)]) =
     (Inr (),
      \<lparr>store = [(''event:5'', added_without_membership, 86400005),
                (''event:6'', invited, 86400006)],
       env = 5,
       calls = [CreateUser (JStr ''alice''),
                AssignRole (JStr ''u1'') (JStr ''admin'') ''default''],
       console = [RetryingFailedEvents,
                  UserAdded,
                  ErrorProcessingEvent ''event:5'' (Error ''Invalid membership data''),
                  IgnoringMemberInvited,
                  UserAdded,
                  CreatingPermitUser (JStr ''alice'') (JStr ''admin''),
                  UserCreated (JObj [(''id'', JStr ''u1'')]),
                  RoleAssigned (JObj [(''id'', JStr ''u1'')])]\<rparr>)"
  by (simp add: program_defs example_defs)

text \<open>
  C9. The handler stores every record with an expiry of exactly 86400 seconds from the
  clock reading at intake: after the handler the store is the old store with the entry
  (body, now + 86400 s) written under the event identifier, or that store with the entry
  deleted again (after a delivery that reported success). From that time on the entry is
  neither read nor listed, whether or not it was delivered.
\<close>

theorem stored_with_ttl_of_one_day:
  assumes "\<not> nullish body"
  shows "(store (snd (post_github_membership E body w)) =
            AList.update (event_id E w) (body, clock E (env w) + 86400 * 1000) (store w)
          \<or> store (snd (post_github_membership E body w)) =
            AList.delete (event_id E w)
              (AList.update (event_id E w) (body, clock E (env w) + 86400 * 1000) (store w))) \<and>
         map_of (AList.update (event_id E w) (body, clock E (env w) + 86400 * 1000) (store w))
            (event_id E w) = Some (body, clock E (env w) + 86400 * 1000) \<and>
         (\<forall>w2. map_of (store w2) (event_id E w) = Some (body, clock E (env w) + 86400 * 1000) \<longrightarrow>
            redis_get E w2 (event_id E w) =
              (if clock E (env w2) < clock E (env w) + 86400 * 1000 then Some body else None) \<and>
            (event_id E w \<in> set (redis_keys E w2) \<longleftrightarrow>
               clock E (env w2) < clock E (env w) + 86400 * 1000))"
proof -
  let ?k = "event_id E w"
  let ?x = "clock E (env w) + 86400 * 1000"
  let ?U = "AList.update ?k (body, ?x) (store w)"
  have 1: "store (snd (post_github_membership E body w)) = ?U
           \<or> store (snd (post_github_membership E body w)) = AList.delete ?k ?U"
    using assms
    by (simp add: post_github_membership_def read_prop_def Let_def case_prod_unfold
          processMembershipEvent_store split: sum.splits)
  have 2: "map_of ?U ?k = Some (body, ?x)"
    by (simp add: AList.update_conv')
  have p: "prefix ''event:'' ?k" by (simp add: event_id_def)
  have 3: "redis_get E w2 ?k = (if clock E (env w2) < ?x then Some body else None) \<and>
           (?k \<in> set (redis_keys E w2) \<longleftrightarrow> clock E (env w2) < ?x)"
    if "map_of (store w2) ?k = Some (body, ?x)" for w2
    using redis_get_live [OF that, of E] p by (simp add: redis_keys_iff)
  from 1 2 3 show ?thesis by blast
qed

theorem stored_with_ttl_of_one_day_witness:
  "\<not> nullish invited \<and>
   store (snd (post_github_membership backend_up invited (idle 5))) =
     [(''event:5'', invited, 86400005)] \<and>
   redis_get backend_up (pending 86400004 [(''event:5'', invited, 86400005)]) ''event:5'' =
     Some invited \<and>
   redis_get backend_up (pending 86400005 [(''event:5'', invited, 86400005)]) ''event:5'' =
     None \<and>
   redis_keys backend_up (pending 86400005 [(''event:5'', invited, 86400005)]) = []"
  using stored_with_ttl_of_one_day [of invited backend_up "idle 5"]
  by (simp add: program_defs example_defs)

text \<open>
  C10. A key that was enumerated but has no value when it is read back (deleted meanwhile,
  or expired between \<^verbatim>\<open>redis.keys\<close> and \<^verbatim>\<open>redis.get\<close>) is skipped, in the sweep loop and
  in the replay loop alike: nothing is thrown or logged for it, and the loop goes on with
  the remaining keys from the unchanged state. In particular a following key that has a
  value is handed to \<^verbatim>\<open>processMembershipEvent\<close>, and on a store written by the handler
  the pass ends normally after a turn for every remaining key.
\<close>

theorem absent_value_skipped:
  assumes "redis_get E w key = None"
  shows "retry_loop E (key # keys) w = retry_loop E keys w \<and>
         replay_loop E (key # keys) w = replay_loop E keys w \<and>
         (\<forall>next eventData rest.
            redis_get E w next = Some eventData \<longrightarrow>
              retry_loop E (key # next # rest) w =
                (case processMembershipEvent E next eventData w of
                   (Inl e, w1) \<Rightarrow> (Inl e, w1)
                 | (Inr u, w1) \<Rightarrow> retry_loop E rest w1) \<and>
              replay_loop E (key # next # rest) w =
                (case processMembershipEvent E next eventData w of
                   (Inl e, w1) \<Rightarrow> (Inl e, w1)
                 | (Inr u, w1) \<Rightarrow> replay_loop E rest w1)) \<and>
         (stored_by_intake w \<longrightarrow>
            retry_loop E (key # keys) w = (Inr (), foldl (attempt E) w keys) \<and>
            replay_loop E (key # keys) w = (Inr (), foldl (attempt E) w keys))"
  using assms retry_loop_isolation [of w E keys]
  unfolding replay_loop_eq
  by simp

text \<open>
  Two records are enumerated at time 86400004; the first expires at 86400005, before it
  is read. The pass skips it and delivers the second.
\<close>

theorem absent_value_skipped_witness:
  "redis_keys backend_up
     (pending 86400004 [(''event:5'', invited, 86400005), (''event:6'', alice_added, 86400006)])
     = [''event:5'', ''event:6''] \<and>
   redis_get backend_up
     (pending 86400005 [(''event:5'', invited, 86400005), (''event:6'', alice_added, 86400006)])
     ''event:5'' = None \<and>
   retry_loop backend_up [''event:5'', ''event:6'']
     (pending 86400005 [(''event:5'', invited, 86400005), (''event:6'', alice_added, 86400006)])
     = (Inr (),
        \<lparr>store = [(''event:5'', invited, 86400005)], env = 86400005,
         calls = [CreateUser (JStr ''alice''),
                  AssignRole (JStr ''u1'') (JStr ''admin'') ''default''],
         console = [UserAdded,
                    CreatingPermitUser (JStr ''alice'') (JStr ''admin''),
                    UserCreated (JObj [(''id'', JStr ''u1'')]),
                    RoleAssigned (JObj [(''id'', JStr ''u1'')])]\<rparr>) \<and>
   replay_loop backend_up [''event:5'', ''event:6'']
     (pending 86400005 [(''event:5'', invited, 86400005), (''event:6'', alice_added, 86400006)])
     = retry_loop backend_up [''event:5'', ''event:6'']
     (pending 86400005 [(''event:5'', invited, 86400005), (''event:6'', alice_added, 86400006)])"
  using absent_value_skipped [of backend_up
      "pending 86400005 [(''event:5'', invited, 86400005), (''event:6'', alice_added, 86400006)]"
      "''event:5''" "[''event:6'']"]
  by (simp add: program_defs example_defs)

end
